theory Spec2Isabelle
  imports Complex_Main "HOL-Library.Word"
begin

unbundle bit_operations_syntax

section \<open>Machine model\<close>

text \<open>
  The functions of \<^verbatim>\<open>bits.c\<close> work on the C types \<^verbatim>\<open>int\<close> and \<^verbatim>\<open>unsigned\<close>, both 32 bits
  wide. Both are modelled as \<^typ>\<open>32 word\<close>: addition and subtraction wrap modulo \<open>2 ^ 32\<close>, the
  bitwise operators are those of the word library, and a signed comparison reads both sides
  through \<^const>\<open>sint\<close> (written \<open><s\<close> and \<open>\<le>s\<close>).

  The shift operators take their count as a word, as the C operators take an \<^verbatim>\<open>int\<close>:
  \<^item> \<open>shl\<close> is \<^verbatim>\<open><<\<close>; bits shifted out at the top are lost (the usual two's-complement
    result, also for \<^verbatim>\<open>1 << 31\<close>);
  \<^item> \<open>sar\<close> is \<^verbatim>\<open>>>\<close> on an \<^verbatim>\<open>int\<close>: the arithmetic shift, which replicates the sign bit;
  \<^item> \<open>shr\<close> is \<^verbatim>\<open>>>\<close> on an \<^verbatim>\<open>unsigned\<close>: the logical shift, which fills with zeros.

  C leaves a shift by a count outside \<open>0..31\<close> undefined. Every theorem below that involves a
  shift by a variable count restricts the count to that range, or shows that the code only
  reaches the shift with such a count.

  \<open>lnot\<close> is the C operator \<^verbatim>\<open>!\<close>.
\<close>

type_synonym int32 = "32 word"
type_synonym uint32 = "32 word"

definition shl :: "int32 \<Rightarrow> int32 \<Rightarrow> int32" where
  "shl x n = push_bit (unat n) x"

definition sar :: "int32 \<Rightarrow> int32 \<Rightarrow> int32" where
  "sar x n = signed_drop_bit (unat n) x"

definition shr :: "uint32 \<Rightarrow> int32 \<Rightarrow> uint32" where
  "shr x n = drop_bit (unat n) x"

definition lnot :: "int32 \<Rightarrow> int32" where
  "lnot x = (if x = 0 then 1 else 0)"

section \<open>The integer puzzles\<close>

text \<open>\<^verbatim>\<open>and = ~(x & y); nor = ~x & ~y; return and & ~nor;\<close>\<close>

definition bitXor :: "int32 \<Rightarrow> int32 \<Rightarrow> int32" where
  "bitXor x y =
     (let and' = NOT (x AND y);
          nor = NOT x AND NOT y
      in and' AND NOT nor)"

text \<open>
  \<^verbatim>\<open>x &= x >> 16; x &= x >> 8; x &= x >> 4; x &= x >> 2; return x & 1;\<close>
  Each assignment to \<^verbatim>\<open>x\<close> is a new binding.
\<close>

definition allEvenBits :: "int32 \<Rightarrow> int32" where
  "allEvenBits x0 =
     (let x1 = x0 AND sar x0 16;
          x2 = x1 AND sar x1 8;
          x3 = x2 AND sar x2 4;
          x4 = x3 AND sar x3 2
      in x4 AND 1)"

text \<open>\<^verbatim>\<open>bitmask = (((x & (1 << 31)) >> n) << 1); return ((x >> n) ^ bitmask);\<close>\<close>

definition logicalShift :: "int32 \<Rightarrow> int32 \<Rightarrow> int32" where
  "logicalShift x n =
     (let bitmask = shl (sar (x AND shl 1 31) n) 1
      in sar x n XOR bitmask)"

text \<open>\<^verbatim>\<open>return ((x | (~x + 1)) >> 31) + 1;\<close>\<close>

definition logicalNeg :: "int32 \<Rightarrow> int32" where
  "logicalNeg x = sar (x OR (NOT x + 1)) 31 + 1"

text \<open>\<^verbatim>\<open>return ~(1 << 31);\<close>\<close>

definition tmax :: int32 where
  "tmax = NOT (shl 1 31)"

text \<open>\<^verbatim>\<open>shift = (~n + 1) + 32; return !(x ^ ((x << shift) >> shift));\<close>\<close>

definition twosBits :: "int32 \<Rightarrow> int32 \<Rightarrow> int32" where
  "twosBits x n =
     (let shift = (NOT n + 1) + 32
      in lnot (x XOR sar (shl x shift) shift))"

section \<open>The float decoder\<close>

text \<open>
  \<^verbatim>\<open>floatFloat2Int\<close> takes an \<^verbatim>\<open>unsigned\<close> and keeps its locals in \<^verbatim>\<open>int\<close>s. The shift
  \<^verbatim>\<open>uf >> 23\<close> is therefore logical, the shifts of \<^verbatim>\<open>result\<close> are arithmetic, and the comparisons
  of \<^verbatim>\<open>e\<close> are signed. The constant \<^verbatim>\<open>0x80000000u\<close> is returned through the \<^verbatim>\<open>int\<close> return type
  with its bit pattern unchanged. The branches come in the order of the source.
\<close>

definition floatFloat2Int :: "uint32 \<Rightarrow> int32" where
  "floatFloat2Int uf =
     (if uf = 0 then 0x0 else
      let negSign = uf AND shl 1 31;
          exp = shr uf 23 AND 0xFF;
          frac = uf AND 0x7FFFFF
      in if exp = 0xFF then 0x80000000 else
         if exp = 0x0 then 0 else
         let e = exp - 127;
             result = frac OR 0x800000
         in if e <s 0 then 0 else
            if 31 \<le>s e then 0x80000000 else
            let result = (if 23 <s e then shl result (e - 23) else sar result (23 - e))
            in if negSign \<noteq> 0 then NOT result + 1 else
               if sar result 31 \<noteq> 0 then 0x80000000 else result)"

text \<open>
  The same function, returning also the \<^verbatim>\<open>return\<close> statement that produced the value. The
  constructors are named after the line of \<^verbatim>\<open>bits.c\<close> the statement is on.
\<close>

datatype return_site =
  Zero_145 | Special_153 | Denorm_156 | Small_164 | Large_165
  | Negative_172 | Overflow_175 | Result_176

definition floatFloat2Int_site :: "uint32 \<Rightarrow> return_site \<times> int32" where
  "floatFloat2Int_site uf =
     (if uf = 0 then (Zero_145, 0x0) else
      let negSign = uf AND shl 1 31;
          exp = shr uf 23 AND 0xFF;
          frac = uf AND 0x7FFFFF
      in if exp = 0xFF then (Special_153, 0x80000000) else
         if exp = 0x0 then (Denorm_156, 0) else
         let e = exp - 127;
             result = frac OR 0x800000
         in if e <s 0 then (Small_164, 0) else
            if 31 \<le>s e then (Large_165, 0x80000000) else
            let result = (if 23 <s e then shl result (e - 23) else sar result (23 - e))
            in if negSign \<noteq> 0 then (Negative_172, NOT result + 1) else
               if sar result 31 \<noteq> 0 then (Overflow_175, 0x80000000)
               else (Result_176, result))"

text \<open>
  The value of \<^verbatim>\<open>result\<close> after the shift of lines 168--169, as the code computes it from
  \<^verbatim>\<open>uf\<close> on the path that gets there.
\<close>

definition shifted_result :: "uint32 \<Rightarrow> int32" where
  "shifted_result uf =
     (let exp = shr uf 23 AND 0xFF;
          frac = uf AND 0x7FFFFF;
          e = exp - 127;
          result = frac OR 0x800000
      in if 23 <s e then shl result (e - 23) else sar result (23 - e))"

subsection \<open>What the bit pattern stands for\<close>

text \<open>
  The reference the decoder is compared with, written from the IEEE-754 single-precision
  layout and not from the code: bit 31 is the sign, bits 30--23 the biased exponent, bits
  22--0 the fraction. An exponent field of 255 encodes infinity or NaN and has no value.
  Otherwise the value is the rational number
  \<open>\<plusminus> (1 + frac / 2\<^sup>2\<^sup>3) * 2 powi (exp - 127)\<close> for a normalized pattern and
  \<open>\<plusminus> (frac / 2\<^sup>2\<^sup>3) * 2 powi (- 126)\<close> for a denormalized one (exponent field 0).
\<close>

definition float_sign :: "uint32 \<Rightarrow> bool" where
  "float_sign uf = bit uf 31"

definition float_exp :: "uint32 \<Rightarrow> nat" where
  "float_exp uf = unat (take_bit 8 (drop_bit 23 uf))"

definition float_frac :: "uint32 \<Rightarrow> nat" where
  "float_frac uf = unat (take_bit 23 uf)"

definition float_value :: "uint32 \<Rightarrow> rat" where
  "float_value uf =
     (if float_sign uf then - 1 else 1) *
     (if float_exp uf = 0
      then (of_nat (float_frac uf) / 2 ^ 23) * 2 powi (- 126)
      else (1 + of_nat (float_frac uf) / 2 ^ 23) * 2 powi (int (float_exp uf) - 127))"

text \<open>
  The 24-bit significand of a normalized pattern, with its leading 1, and the integer part of
  the magnitude \<open>significand * 2 powi (exp - 150)\<close> of its value.
\<close>

definition float_significand :: "uint32 \<Rightarrow> nat" where
  "float_significand uf = 2 ^ 23 + float_frac uf"

definition float_magnitude :: "uint32 \<Rightarrow> nat" where
  "float_magnitude uf =
     (if 150 < float_exp uf then float_significand uf * 2 ^ (float_exp uf - 150)
      else float_significand uf div 2 ^ (150 - float_exp uf))"

text \<open>Truncation toward zero, as the C conversion \<^verbatim>\<open>(int) f\<close> rounds.\<close>

definition truncate_toward_zero :: "rat \<Rightarrow> int" where
  "truncate_toward_zero r = (if 0 \<le> r then \<lfloor>r\<rfloor> else \<lceil>r\<rceil>)"

text \<open>
  The conversion the specification describes: the truncated value as a 32-bit two's-complement
  pattern when it lies in \<open>-2\<^sup>3\<^sup>1 .. 2\<^sup>3\<^sup>1 - 1\<close>, and \<^verbatim>\<open>0x80000000\<close> for NaN, infinity and
  values out of that range.
\<close>

definition float2int_spec :: "uint32 \<Rightarrow> int32" where
  "float2int_spec uf =
     (if float_exp uf = 255 then 0x80000000
      else let t = truncate_toward_zero (float_value uf)
           in if - (2 ^ 31) \<le> t \<and> t \<le> 2 ^ 31 - 1 then word_of_int t else 0x80000000)"

section \<open>Bits of shifted words\<close>

lemma uint_of_nonneg_sint: "0 \<le> sint (w :: int32) \<Longrightarrow> uint w = sint w"
proof -
  assume "0 \<le> sint w"
  moreover have "sint w < 2 ^ 31" using sint_lt[of w] by simp
  ultimately have "take_bit 32 (sint w) = sint w"
    by (simp add: take_bit_int_eq_self)
  then show ?thesis using uint_sint[of w] by simp
qed

lemma unat_of_nonneg_sint: "0 \<le> sint (w :: int32) \<Longrightarrow> int (unat w) = sint w"
  using uint_of_nonneg_sint[of w] by simp

lemma bit_shl_iff: "bit (shl x n) i \<longleftrightarrow> unat n \<le> i \<and> i < 32 \<and> bit x (i - unat n)"
  by (simp add: shl_def bit_push_bit_iff)

lemma bit_sar_iff:
  "bit (sar x n) i \<longleftrightarrow> bit x (if 32 - unat n \<le> i \<and> i < 32 then 31 else unat n + i)"
  by (simp add: sar_def bit_signed_drop_bit_iff)

lemma sar_31: "sar w 31 = (if bit w 31 then - 1 else 0)"
  unfolding sar_def by (rule bit_word_eqI) (auto simp add: bit_simps not_less_eq_eq)

lemma bit_sign_mask: "bit (x AND shl 1 31) i \<longleftrightarrow> i = 31 \<and> bit x 31"
proof -
  have "(shl 1 31 :: int32) = 2 ^ 31" by (simp add: shl_def)
  then show ?thesis by (simp only: bit_and_iff bit_exp_iff possible_bit_word) auto
qed

lemma bit_sar_sign_mask:
  assumes "unat n \<le> 31"
  shows "bit (sar (x AND shl 1 31) n) j \<longleftrightarrow> bit x 31 \<and> 31 - unat n \<le> j \<and> j < 32"
proof (cases "32 - unat n \<le> j \<and> j < 32")
  case True
  then have "31 - unat n \<le> j" by arith
  with True show ?thesis by (simp add: bit_sar_iff bit_sign_mask)
next
  case False
  then have "unat n + j = 31 \<longleftrightarrow> 31 - unat n \<le> j \<and> j < 32" using assms by arith
  with False show ?thesis by (auto simp add: bit_sar_iff bit_sign_mask)
qed

lemma and_1_eq_if: "(w :: int32) AND 1 = (if bit w 0 then 1 else 0)"
  by (simp add: and_one_eq bit_0 mod_2_eq_odd)

lemma and_1_eq_if_self: "(w :: int32) AND 1 = (if bit (w AND 1) 0 then 1 else 0)"
  by (simp add: and_1_eq_if bit_and_iff)

section \<open>bitXor\<close>

text \<open>
  Claim C6. For all words \<open>x\<close> and \<open>y\<close>, \<open>bitXor x y\<close> is the bitwise exclusive-or of \<open>x\<close> and
  \<open>y\<close>, and the formula built from complement and conjunction only,
  \<open>NOT (x AND y) AND NOT (NOT x AND NOT y)\<close>, which is what the function computes, is the
  exclusive-or as well.
\<close>

theorem bitXor_correct:
  "bitXor x y = x XOR y
   \<and> bitXor x y = NOT (x AND y) AND NOT (NOT x AND NOT y)
   \<and> NOT (x AND y) AND NOT (NOT x AND NOT y) = x XOR y"
proof -
  have "NOT (x AND y) AND NOT (NOT x AND NOT y) = x XOR y"
    by (rule bit_word_eqI) (auto simp add: bit_simps)
  then show ?thesis by (simp add: bitXor_def Let_def)
qed

section \<open>allEvenBits\<close>

lemma all_even_indices:
  "(\<forall>i<16. bit x (2 * i)) \<longleftrightarrow>
     bit x 0 \<and> bit x 2 \<and> bit x 4 \<and> bit x 6 \<and> bit x 8 \<and> bit x 10 \<and> bit x 12 \<and> bit x 14
     \<and> bit x 16 \<and> bit x 18 \<and> bit x 20 \<and> bit x 22 \<and> bit x 24 \<and> bit x 26 \<and> bit x 28 \<and> bit x 30"
  for x :: int32
  by (simp add: eval_nat_numeral All_less_Suc conj_ac del: bit_0)

lemma bit_0_allEvenBits:
  "bit (allEvenBits x) 0 \<longleftrightarrow>
     bit x 0 \<and> bit x 2 \<and> bit x 4 \<and> bit x 6 \<and> bit x 8 \<and> bit x 10 \<and> bit x 12 \<and> bit x 14
     \<and> bit x 16 \<and> bit x 18 \<and> bit x 20 \<and> bit x 22 \<and> bit x 24 \<and> bit x 26 \<and> bit x 28 \<and> bit x 30"
  unfolding allEvenBits_def Let_def sar_def
  by (simp add: bit_simps) blast

lemma allEvenBits_bool: "allEvenBits x = (if bit (allEvenBits x) 0 then 1 else 0)"
  unfolding allEvenBits_def Let_def by (rule and_1_eq_if_self)

text \<open>
  Claim C7. For every word \<open>x\<close>, \<open>allEvenBits x\<close> is 1 when every bit of \<open>x\<close> at an even index
  0, 2, ..., 30 is set, and 0 otherwise; \<open>allEvenBits 0xFFFFFFFE = 0\<close>,
  \<open>allEvenBits 0x55555555 = 1\<close> and \<open>allEvenBits 0xFFFFFFFF = 1\<close>.
\<close>

theorem allEvenBits_correct:
  "allEvenBits x = (if (\<forall>i<16. bit x (2 * i)) then 1 else 0)
   \<and> allEvenBits 0xFFFFFFFE = 0
   \<and> allEvenBits 0x55555555 = 1
   \<and> allEvenBits 0xFFFFFFFF = 1"
proof -
  have "allEvenBits x = (if (\<forall>i<16. bit x (2 * i)) then 1 else 0)"
    using all_even_indices[of x] bit_0_allEvenBits[of x] allEvenBits_bool[of x] by presburger
  moreover have "allEvenBits 0xFFFFFFFE = 0" "allEvenBits 0x55555555 = 1"
    "allEvenBits 0xFFFFFFFF = 1"
    by (simp_all add: allEvenBits_def sar_def)
  ultimately show ?thesis by simp
qed

theorem allEvenBits_correct_witness:
  "list_all (\<lambda>i. bit (0x55555555 :: int32) (2 * i)) [0..<16]
   \<and> allEvenBits 0x55555555 = 1
   \<and> \<not> bit (0xFFFFFFFE :: int32) (2 * 0)
   \<and> allEvenBits 0xFFFFFFFE = 0"
proof -
  have a: "\<forall>i<16. bit (0x55555555 :: int32) (2 * i)"
    using all_even_indices[of "0x55555555"] by simp
  have b: "\<not> (\<forall>i<16. bit (0xFFFFFFFE :: int32) (2 * i))"
    using all_even_indices[of "0xFFFFFFFE"] by simp
  have c: "list_all (\<lambda>i. bit (0x55555555 :: int32) (2 * i)) [0..<16]"
    using a by (simp only: list_all_iff set_upt atLeastLessThan_iff) simp
  have d: "\<not> bit (0xFFFFFFFE :: int32) (2 * 0)" by simp
  from a b allEvenBits_correct[of "0x55555555"] allEvenBits_correct[of "0xFFFFFFFE"]
  have "allEvenBits 0x55555555 = 1" "allEvenBits 0xFFFFFFFE = 0" by simp_all
  with c d show ?thesis by (simp only: simp_thms)
qed

section \<open>logicalShift\<close>

lemma logicalShift_eq_drop_bit:
  assumes "0 \<le>s n" "n \<le>s 31"
  shows "logicalShift x n = drop_bit (unat n) x"
proof -
  from assms have "0 \<le> sint n" "sint n \<le> 31" by (simp_all add: word_sle_eq)
  then have u: "unat n \<le> 31"
    using unat_of_nonneg_sint[of n] by linarith
  show ?thesis
  proof (rule bit_word_eqI)
    fix i
    assume i: "i < LENGTH(32)"
    let ?k = "unat n"
    have s1: "bit (sar x n) i \<longleftrightarrow> (if 32 - ?k \<le> i then bit x 31 else bit x (?k + i))"
      using i by (simp add: bit_sar_iff)
    have "Suc 0 \<le> i \<and> 31 - ?k \<le> i - Suc 0 \<longleftrightarrow> 32 - ?k \<le> i" using u by arith
    then have s2: "bit (shl (sar (x AND shl 1 31) n) 1) i \<longleftrightarrow> 32 - ?k \<le> i \<and> bit x 31"
      using i u by (auto simp add: bit_shl_iff bit_sar_sign_mask)
    have s3: "bit (drop_bit ?k x) i \<longleftrightarrow> (if 32 - ?k \<le> i then False else bit x (?k + i))"
      by (auto simp add: bit_drop_bit_eq dest: bit_imp_le_length)
    show "bit (logicalShift x n) i \<longleftrightarrow> bit (drop_bit (unat n) x) i"
      by (simp add: logicalShift_def Let_def bit_xor_iff s1 s2 s3)
  qed
qed

text \<open>
  Claim C4. For every word \<open>x\<close> and every count \<open>n\<close> with \<open>0 \<le> n \<le> 31\<close>, \<open>logicalShift x n\<close>
  is \<open>x\<close> shifted right by \<open>n\<close> as an unsigned number: it is \<open>drop_bit n x\<close>, its unsigned
  value is that of \<open>x\<close> divided by \<open>2 ^ n\<close>, and its \<open>n\<close> highest bits are zero whatever the
  sign of \<open>x\<close>. Moreover \<open>logicalShift 0x87654321 4 = 0x08765432\<close> and \<open>logicalShift x 0 = x\<close>.
\<close>

theorem logicalShift_correct:
  "(0 \<le>s n \<and> n \<le>s 31 \<longrightarrow>
      logicalShift x n = drop_bit (unat n) x
      \<and> unat (logicalShift x n) = unat x div 2 ^ unat n
      \<and> (\<forall>i. 32 - unat n \<le> i \<longrightarrow> \<not> bit (logicalShift x n) i))
   \<and> logicalShift 0x87654321 4 = 0x08765432
   \<and> logicalShift x 0 = x"
proof -
  have "logicalShift x n = drop_bit (unat n) x
      \<and> unat (logicalShift x n) = unat x div 2 ^ unat n
      \<and> (\<forall>i. 32 - unat n \<le> i \<longrightarrow> \<not> bit (logicalShift x n) i)"
    if a: "0 \<le>s n" "n \<le>s 31"
  proof -
    note eq = logicalShift_eq_drop_bit[OF a]
    have "unat (drop_bit (unat n) x) = drop_bit (unat n) (unat x)"
      by (rule unat_drop_bit_eq)
    also have "\<dots> = unat x div 2 ^ unat n"
      by (rule drop_bit_eq_div)
    finally have "unat (drop_bit (unat n) x) = unat x div 2 ^ unat n" .
    moreover have "\<not> bit (drop_bit (unat n) x) i" if "32 - unat n \<le> i" for i
      using that by (auto simp add: bit_drop_bit_eq dest: bit_imp_le_length)
    ultimately show ?thesis using eq by simp
  qed
  moreover have "logicalShift 0x87654321 4 = 0x08765432"
    by (simp add: logicalShift_def shl_def sar_def)
  moreover have "logicalShift x 0 = x"
    using logicalShift_eq_drop_bit[of 0 x] by (simp add: word_sle_eq)
  ultimately show ?thesis by blast
qed

theorem logicalShift_correct_witness:
  "0 \<le>s (4 :: int32) \<and> (4 :: int32) \<le>s 31
   \<and> logicalShift 0x87654321 4 = drop_bit 4 0x87654321
   \<and> unat (logicalShift 0x87654321 4) = 0x87654321 div 2 ^ 4
   \<and> (28 \<le> (31 :: nat) \<and> \<not> bit (logicalShift 0x87654321 4) 31)"
proof -
  have h: "0 \<le>s (4 :: int32) \<and> (4 :: int32) \<le>s 31" by (simp add: word_sle_eq)
  with logicalShift_correct[of 4 "0x87654321"]
  have "logicalShift 0x87654321 4 = drop_bit (unat (4 :: int32)) 0x87654321
      \<and> unat (logicalShift 0x87654321 4) = unat (0x87654321 :: int32) div 2 ^ unat (4 :: int32)
      \<and> (\<forall>i. 32 - unat (4 :: int32) \<le> i \<longrightarrow> \<not> bit (logicalShift 0x87654321 4) i)"
    by blast
  then have "logicalShift 0x87654321 4 = drop_bit 4 0x87654321"
    "unat (logicalShift 0x87654321 4) = 0x87654321 div 2 ^ 4"
    "\<not> bit (logicalShift 0x87654321 4) 31"
    by simp_all
  with h show ?thesis by simp
qed

section \<open>logicalNeg\<close>

lemma sign_of_negation:
  assumes "x \<noteq> 0"
  shows "bit (x :: int32) 31 \<or> bit (NOT x + 1) 31"
proof (cases "bit x 31")
  case True
  then show ?thesis by simp
next
  case False
  have eq: "NOT x + 1 = - x" by (simp add: minus_eq_not_plus_1)
  from False have "0 \<le> sint x" using bit_last_iff[of x] by simp
  moreover have "sint x \<noteq> 0" using assms by (simp add: signed_eq_0_iff)
  ultimately have pos: "0 < sint x" by simp
  have "sint x < 2 ^ 31" using sint_lt[of x] by simp
  with pos have "sint (- x) = - sint x"
    by (simp add: sint_word_minus signed_take_bit_int_eq_self)
  with pos have "sint (- x) < 0" by simp
  then have "bit (- x) 31" using bit_last_iff[of "- x"] by simp
  then show ?thesis by (simp add: eq)
qed

lemma logicalNeg_eq: "logicalNeg x = (if x = 0 then 1 else 0)"
proof (cases "x = 0")
  case True
  then show ?thesis by (simp add: logicalNeg_def sar_def)
next
  case False
  from sign_of_negation[OF this] have "bit (x OR (NOT x + 1)) 31" by (simp add: bit_or_iff)
  then show ?thesis using False by (simp add: logicalNeg_def sar_31)
qed

text \<open>
  Claim C5. For every word \<open>x\<close>, \<open>logicalNeg x\<close> is 1 when \<open>x = 0\<close> and 0 otherwise, also for
  \<open>x = 0x80000000\<close>, which is its own negation. The reason: for a nonzero \<open>x\<close>, one of \<open>x\<close>
  and \<open>NOT x + 1\<close> has bit 31 set, so \<open>(x OR (NOT x + 1)) >> 31\<close> is \<open>- 1\<close> and adding 1 gives
  0, while for \<open>x = 0\<close> the shift gives 0 and the sum 1. Moreover \<open>logicalNeg 3 = 0\<close>,
  \<open>logicalNeg 0 = 1\<close> and \<open>logicalNeg (- 1) = 0\<close>.
\<close>

theorem logicalNeg_correct:
  "logicalNeg x = (if x = 0 then 1 else 0)
   \<and> logicalNeg 0x80000000 = 0
   \<and> NOT (0x80000000 :: int32) + 1 = 0x80000000
   \<and> (x \<noteq> 0 \<longrightarrow> (bit x 31 \<or> bit (NOT x + 1) 31)
                \<and> sar (x OR (NOT x + 1)) 31 = - 1
                \<and> sar (x OR (NOT x + 1)) 31 + 1 = 0)
   \<and> sar (0 OR (NOT 0 + 1)) 31 + 1 = (1 :: int32)
   \<and> logicalNeg 3 = 0 \<and> logicalNeg 0 = 1 \<and> logicalNeg (- 1) = 0"
proof -
  have "(bit x 31 \<or> bit (NOT x + 1) 31)
        \<and> sar (x OR (NOT x + 1)) 31 = - 1
        \<and> sar (x OR (NOT x + 1)) 31 + 1 = 0" if "x \<noteq> 0"
  proof -
    from sign_of_negation[OF that] have "bit (x OR (NOT x + 1)) 31" by (simp add: bit_or_iff)
    then have "sar (x OR (NOT x + 1)) 31 = - 1" by (simp add: sar_31)
    with sign_of_negation[OF that] show ?thesis by simp
  qed
  moreover have "sar (0 OR (NOT 0 + 1)) 31 + 1 = (1 :: int32)"
    by (simp add: sar_def)
  ultimately show ?thesis
    by (simp add: logicalNeg_eq)
qed

theorem logicalNeg_correct_witness:
  "(3 :: int32) \<noteq> 0 \<and> logicalNeg 3 = 0
   \<and> bit (NOT (3 :: int32) + 1) 31 \<and> sar (3 OR (NOT 3 + 1)) 31 = - 1"
proof -
  have h: "(3 :: int32) \<noteq> 0" by simp
  have b: "bit (NOT (3 :: int32) + 1) 31" by simp
  from h b logicalNeg_correct[of 3] show ?thesis by simp
qed

section \<open>tmax\<close>

text \<open>
  Claim C8. \<open>tmax\<close> is \<open>0x7FFFFFFF\<close>, whose signed value \<open>2\<^sup>3\<^sup>1 - 1\<close> is the largest a 32-bit
  two's-complement word has, and \<open>tmax + 1\<close> wraps to \<open>0x80000000\<close>, whose signed value
  \<open>- 2\<^sup>3\<^sup>1\<close> is the smallest.
\<close>

theorem tmax_correct:
  "tmax = 0x7FFFFFFF
   \<and> sint tmax = 2 ^ 31 - 1
   \<and> sint (x :: int32) \<le> sint tmax
   \<and> tmax + 1 = 0x80000000
   \<and> sint (tmax + 1) = - (2 ^ 31)
   \<and> sint (tmax + 1) \<le> sint x"
proof -
  have t: "tmax = 0x7FFFFFFF" by (simp add: tmax_def shl_def)
  have "sint x < 2 ^ 31" "- (2 ^ 31) \<le> sint x"
    using sint_lt[of x] sint_ge[of x] by simp_all
  then show ?thesis by (simp add: t)
qed

section \<open>twosBits\<close>

lemma twosBits_shift:
  assumes "1 \<le>s (n :: int32)" "n \<le>s 32"
  shows "unat ((NOT n + 1) + 32) = 32 - unat n" "1 \<le> unat n" "unat n \<le> 32"
proof -
  from assms have s: "1 \<le> sint n" "sint n \<le> 32" by (simp_all add: word_sle_eq)
  then have u: "int (unat n) = sint n" using unat_of_nonneg_sint[of n] by simp
  with s show "1 \<le> unat n" "unat n \<le> 32" by linarith+
  then have "n \<le> 32" by (simp add: word_le_nat_alt)
  have "(NOT n + 1) + 32 = 32 - n" by (simp add: minus_eq_not_plus_1)
  moreover have "unat (32 - n) = 32 - unat n"
    using \<open>n \<le> 32\<close> by (simp add: unat_sub)
  ultimately show "unat ((NOT n + 1) + 32) = 32 - unat n"
    by (simp only:)
qed

lemma sar_shl_eq_signed_take_bit:
  "unat k \<le> 31 \<Longrightarrow> sar (shl x k) k = signed_take_bit (31 - unat k) x"
proof (rule bit_word_eqI)
  fix i
  assume k: "unat k \<le> 31" and i: "i < LENGTH(32)"
  show "bit (sar (shl x k) k) i \<longleftrightarrow> bit (signed_take_bit (31 - unat k) x) i"
  proof (cases "32 - unat k \<le> i")
    case True
    then have "min (31 - unat k) i = 31 - unat k" by arith
    with True k i show ?thesis
      by (simp add: bit_sar_iff bit_shl_iff bit_signed_take_bit_iff)
  next
    case False
    then have "min (31 - unat k) i = i" "unat k + i < 32" by arith+
    with False k i show ?thesis
      by (simp add: bit_sar_iff bit_shl_iff bit_signed_take_bit_iff)
  qed
qed

lemma twosBits_eq:
  assumes "1 \<le>s n" "n \<le>s 32"
  shows "twosBits x n = (if signed_take_bit (unat n - 1) x = x then 1 else 0)"
proof -
  note t = twosBits_shift[OF assms]
  have "31 - unat (NOT n + 1 + 32) = unat n - 1" using t by simp
  moreover have "unat (NOT n + 1 + 32) \<le> 31" using t by simp
  ultimately have
    "sar (shl x (NOT n + 1 + 32)) (NOT n + 1 + 32) = signed_take_bit (unat n - 1) x"
    using sar_shl_eq_signed_take_bit[of "NOT n + 1 + 32" x] by simp
  moreover have "x XOR y = 0 \<longleftrightarrow> y = x" for y :: int32
    by (metis xor_self_eq xor.left_neutral xor.assoc xor.right_neutral)
  ultimately show ?thesis
    by (simp add: twosBits_def Let_def lnot_def)
qed

lemma sint_signed_take_bit_word:
  "m < 32 \<Longrightarrow> sint (signed_take_bit m (x :: int32)) = signed_take_bit m (sint x)"
proof (rule bit_eqI)
  fix i
  assume m: "m < 32"
  show "bit (sint (signed_take_bit m x)) i \<longleftrightarrow> bit (signed_take_bit m (sint x)) i"
  proof (cases "i < 31")
    case True
    then have "min m i < 32" "min m i \<le> 31" using m by simp_all
    with True show ?thesis by (auto simp add: bit_sint_iff bit_signed_take_bit_iff)
  next
    case False
    then have "min m 31 = m" "min m i = m" using m by simp_all
    with False m show ?thesis by (auto simp add: bit_sint_iff bit_signed_take_bit_iff)
  qed
qed

lemma signed_take_bit_fits:
  assumes "m < 32"
  shows "signed_take_bit m (x :: int32) = x \<longleftrightarrow> - (2 ^ m) \<le> sint x \<and> sint x < 2 ^ m"
proof -
  have "signed_take_bit m x = x \<longleftrightarrow> sint (signed_take_bit m x) = sint x"
    by (simp add: word_eq_iff_signed[where ?'a = int])
  also have "sint (signed_take_bit m x) = signed_take_bit m (sint x)"
    using assms by (rule sint_signed_take_bit_word)
  finally show ?thesis by (simp add: signed_take_bit_int_eq_self_iff)
qed

text \<open>
  Claim C3. For every word \<open>x\<close> and every width \<open>n\<close> with \<open>1 \<le> n \<le> 32\<close>, \<open>twosBits x n\<close> is 1
  when keeping the low \<open>n\<close> bits of \<open>x\<close> and sign-extending them from bit \<open>n - 1\<close> to 32 bits
  gives \<open>x\<close> back, and 0 otherwise; the former holds exactly when the signed value of \<open>x\<close>
  is an \<open>n\<close>-bit two's-complement number, \<open>- 2 ^ (n - 1) \<le> x < 2 ^ (n - 1)\<close>. Moreover
  \<open>twosBits 5 3 = 0\<close>, \<open>twosBits (- 4) 3 = 1\<close> and \<open>twosBits x 32 = 1\<close> for every \<open>x\<close>.
\<close>

theorem twosBits_correct:
  "(1 \<le>s n \<and> n \<le>s 32 \<longrightarrow>
      twosBits x n = (if signed_take_bit (unat n - 1) x = x then 1 else 0)
      \<and> (signed_take_bit (unat n - 1) x = x
           \<longleftrightarrow> - (2 ^ (unat n - 1)) \<le> sint x \<and> sint x < 2 ^ (unat n - 1)))
   \<and> twosBits 5 3 = 0
   \<and> twosBits (- 4) 3 = 1
   \<and> twosBits x 32 = 1"
proof -
  have "twosBits x n = (if signed_take_bit (unat n - 1) x = x then 1 else 0)
      \<and> (signed_take_bit (unat n - 1) x = x
           \<longleftrightarrow> - (2 ^ (unat n - 1)) \<le> sint x \<and> sint x < 2 ^ (unat n - 1))"
    if a: "1 \<le>s n" "n \<le>s 32"
  proof -
    from twosBits_shift[OF a] have "unat n - 1 < 32" by simp
    from signed_take_bit_fits[OF this] twosBits_eq[OF a] show ?thesis by simp
  qed
  moreover have "twosBits 5 3 = 0" "twosBits (- 4) 3 = 1"
    by (simp_all add: twosBits_def shl_def sar_def lnot_def)
  moreover have "twosBits x 32 = 1"
  proof -
    have "signed_take_bit 31 x = x"
      using signed_take_bit_fits[of 31 x] sint_lt[of x] sint_ge[of x] by simp
    then show ?thesis using twosBits_eq[of 32 x] by (simp add: word_sle_eq)
  qed
  ultimately show ?thesis by blast
qed

theorem twosBits_correct_witness:
  "1 \<le>s (3 :: int32) \<and> (3 :: int32) \<le>s 32
   \<and> twosBits (- 4) 3 = 1 \<and> signed_take_bit 2 (- 4 :: int32) = - 4
   \<and> - (2 ^ 2) \<le> sint (- 4 :: int32) \<and> sint (- 4 :: int32) < 2 ^ 2"
proof -
  have h: "1 \<le>s (3 :: int32) \<and> (3 :: int32) \<le>s 32" by (simp add: word_sle_eq)
  have "unat (3 :: int32) - 1 = 2" by simp
  with h twosBits_correct[of 3 "- 4"]
  have "signed_take_bit 2 (- 4 :: int32) = - 4
          \<longleftrightarrow> - (2 ^ 2) \<le> sint (- 4 :: int32) \<and> sint (- 4 :: int32) < 2 ^ 2"
    and "twosBits (- 4) 3 = 1"
    by simp_all
  with h show ?thesis by simp
qed

section \<open>floatFloat2Int: the fields of the pattern\<close>

lemma sint_small: "unat (w :: int32) < 2 ^ 31 \<Longrightarrow> sint w = int (unat w)"
proof -
  assume a: "unat w < 2 ^ 31"
  then have "int (unat w) < int (2 ^ 31)" by (simp only: of_nat_less_iff)
  then have "uint w < 2 ^ 31" by simp
  moreover have "- (2 ^ 31) \<le> uint w"
    by (rule order_trans[of _ 0]) simp_all
  ultimately have "signed_take_bit 31 (uint w) = uint w"
    by (intro signed_take_bit_int_eq_self)
  then show ?thesis by (simp add: sint_uint)
qed

lemma not_bit_31_small: "unat (w :: int32) < 2 ^ 31 \<Longrightarrow> \<not> bit w 31"
  using sint_small[of w] bit_last_iff[of w] by simp

lemma exp_field: "shr uf 23 AND 0xFF = take_bit 8 (drop_bit 23 uf)"
proof -
  have "(0xFF :: int32) = mask 8" by (simp add: mask_eq_exp_minus_1)
  then show ?thesis by (simp only: take_bit_eq_mask) (simp add: shr_def)
qed

lemma frac_field: "uf AND 0x7FFFFF = take_bit 23 (uf :: uint32)"
proof -
  have "(0x7FFFFF :: int32) = mask 23" by (simp add: mask_eq_exp_minus_1)
  then show ?thesis by (simp only: take_bit_eq_mask)
qed

lemma float_exp_less: "float_exp uf < 256"
proof -
  have "take_bit 8 (unat (drop_bit 23 uf)) < 2 ^ 8" by (rule take_bit_nat_less_exp)
  then show ?thesis by (simp add: float_exp_def unsigned_take_bit_eq)
qed

lemma float_frac_less: "float_frac uf < 2 ^ 23"
proof -
  have "take_bit 23 (unat uf) < 2 ^ 23" by (rule take_bit_nat_less_exp)
  then show ?thesis by (simp add: float_frac_def unsigned_take_bit_eq)
qed

lemma unat_exp_field: "unat (shr uf 23 AND 0xFF) = float_exp uf"
  by (simp only: exp_field float_exp_def)

lemma unat_frac_field: "unat (uf AND 0x7FFFFF) = float_frac uf"
  by (simp only: frac_field float_frac_def)

lemma sign_field: "uf AND shl 1 31 \<noteq> 0 \<longleftrightarrow> float_sign uf"
proof (cases "bit uf 31")
  case True
  then have "bit (uf AND shl 1 31) 31" by (simp add: bit_sign_mask)
  then have "uf AND shl 1 31 \<noteq> 0" by auto
  with True show ?thesis by (simp add: float_sign_def)
next
  case False
  then have "uf AND shl 1 31 = 0"
    by (intro bit_word_eqI) (simp add: bit_sign_mask)
  with False show ?thesis by (simp add: float_sign_def)
qed

lemma exp_eq_iff:
  "shr uf 23 AND 0xFF = 0xFF \<longleftrightarrow> float_exp uf = 255"
  "shr uf 23 AND 0xFF = 0 \<longleftrightarrow> float_exp uf = 0"
proof -
  have "shr uf 23 AND 0xFF = 0xFF \<longleftrightarrow> unat (shr uf 23 AND 0xFF) = unat (0xFF :: int32)"
    by (simp only: word_eq_iff_unsigned[where ?'a = nat])
  then show "shr uf 23 AND 0xFF = 0xFF \<longleftrightarrow> float_exp uf = 255"
    by (simp add: unat_exp_field)
  have "shr uf 23 AND 0xFF = 0 \<longleftrightarrow> unat (shr uf 23 AND 0xFF) = unat (0 :: int32)"
    by (simp only: word_eq_iff_unsigned[where ?'a = nat])
  then show "shr uf 23 AND 0xFF = 0 \<longleftrightarrow> float_exp uf = 0"
    by (simp add: unat_exp_field)
qed

lemma sint_unbiased:
  "sint ((shr uf 23 AND 0xFF) - 127) = int (float_exp uf) - 127"
proof -
  let ?w = "shr uf 23 AND 0xFF"
  have u: "unat ?w = float_exp uf" by (rule unat_exp_field)
  with float_exp_less[of uf] have s: "sint ?w = int (float_exp uf)"
    using sint_small[of ?w] by simp
  have "sint (?w - 127) = signed_take_bit 31 (sint ?w - sint (127 :: int32))"
    by (simp add: sint_word_diff)
  also have "\<dots> = signed_take_bit 31 (int (float_exp uf) - 127)" by (simp add: s)
  also have "\<dots> = int (float_exp uf) - 127"
    using float_exp_less[of uf] by (simp add: signed_take_bit_int_eq_self)
  finally show ?thesis .
qed

lemma unbiased_tests:
  "(shr uf 23 AND 0xFF) - 127 <s 0 \<longleftrightarrow> float_exp uf < 127"
  "31 \<le>s (shr uf 23 AND 0xFF) - 127 \<longleftrightarrow> 158 \<le> float_exp uf"
  "23 <s (shr uf 23 AND 0xFF) - 127 \<longleftrightarrow> 150 < float_exp uf"
  by (auto simp add: word_sless_alt word_sle_eq sint_unbiased)

lemma shift_counts:
  "150 \<le> float_exp uf \<Longrightarrow> unat ((shr uf 23 AND 0xFF) - 127 - 23) = float_exp uf - 150"
  "float_exp uf \<le> 150 \<Longrightarrow> unat (23 - ((shr uf 23 AND 0xFF) - 127)) = 150 - float_exp uf"
proof -
  let ?w = "shr uf 23 AND 0xFF"
  have u: "unat ?w = float_exp uf" by (rule unat_exp_field)
  have a: "?w - 127 - 23 = ?w - 150" "23 - (?w - 127) = 150 - ?w" by simp_all
  show "unat (?w - 127 - 23) = float_exp uf - 150" if "150 \<le> float_exp uf"
  proof -
    from that u have "150 \<le> ?w" by (simp add: word_le_nat_alt)
    then have "unat (?w - 150) = unat ?w - unat (150 :: int32)" by (rule unat_sub)
    then show ?thesis by (simp only: a u) simp
  qed
  show "unat (23 - (?w - 127)) = 150 - float_exp uf" if "float_exp uf \<le> 150"
  proof -
    from that u have "?w \<le> 150" by (simp add: word_le_nat_alt)
    then have "unat (150 - ?w) = unat (150 :: int32) - unat ?w" by (rule unat_sub)
    then show ?thesis by (simp only: a u) simp
  qed
qed

lemma unat_significand: "unat ((uf AND 0x7FFFFF) OR 0x800000) = 2 ^ 23 + float_frac uf"
proof -
  let ?f = "take_bit 23 uf :: int32"
  have "?f + 2 ^ 23 = ?f OR 2 ^ 23"
    by (rule disjunctive_add) (simp only: bit_take_bit_iff bit_exp_iff, auto)
  moreover have "unat ?f + unat (2 ^ 23 :: int32) < 2 ^ LENGTH(32)"
    using float_frac_less[of uf] by (simp add: float_frac_def)
  then have "unat (?f + 2 ^ 23) = unat ?f + unat (2 ^ 23 :: int32)"
    by (rule unat_add_lem[THEN iffD1])
  ultimately have "unat (?f OR 2 ^ 23) = 2 ^ 23 + float_frac uf"
    by (simp add: float_frac_def)
  then show ?thesis by (simp add: frac_field)
qed

lemma unat_shl:
  assumes "unat w * 2 ^ unat k < 2 ^ 32"
  shows "unat (shl w k) = unat w * 2 ^ unat k"
proof -
  have "unat (shl w k) = take_bit 32 (push_bit (unat k) (unat w))"
    by (simp add: shl_def unsigned_push_bit_eq)
  also have "\<dots> = push_bit (unat k) (unat w)"
    using assms by (simp add: take_bit_nat_eq_self push_bit_eq_mult)
  finally show ?thesis by (simp add: push_bit_eq_mult)
qed

lemma unat_sar:
  assumes "unat w < 2 ^ 31"
  shows "unat (sar w k) = unat w div 2 ^ unat k"
proof -
  have nb: "\<not> bit w 31" using assms by (rule not_bit_31_small)
  have "sar w k = drop_bit (unat k) w"
  proof (rule bit_word_eqI)
    fix i
    assume "i < LENGTH(32)"
    then have i: "i < 32" by simp
    show "bit (sar w k) i \<longleftrightarrow> bit (drop_bit (unat k) w) i"
    proof (cases "32 - unat k \<le> i")
      case True
      then have "\<not> bit w (unat k + i)" by (auto dest: bit_imp_le_length)
      with True nb i show ?thesis by (simp add: bit_sar_iff bit_drop_bit_eq)
    next
      case False
      with i show ?thesis by (simp add: bit_sar_iff bit_drop_bit_eq)
    qed
  qed
  then have "unat (sar w k) = unat (drop_bit (unat k) w)" by (simp only:)
  also have "\<dots> = drop_bit (unat k) (unat w)" by (rule unat_drop_bit_eq)
  also have "\<dots> = unat w div 2 ^ unat k" by (rule drop_bit_eq_div)
  finally show ?thesis .
qed

section \<open>floatFloat2Int: the value returned on each path\<close>

lemma float_magnitude_less:
  assumes "float_exp uf \<le> 157"
  shows "float_magnitude uf < 2 ^ 31"
proof (cases "150 < float_exp uf")
  case True
  have m: "float_significand uf < 2 ^ 24"
    using float_frac_less[of uf] by (simp add: float_significand_def)
  have "(2 :: nat) ^ (float_exp uf - 150) \<le> 2 ^ 7"
    using assms by (intro power_increasing) simp_all
  then have "float_significand uf * 2 ^ (float_exp uf - 150) \<le> float_significand uf * 2 ^ 7"
    by (rule mult_le_mono2)
  also have "\<dots> < 2 ^ 24 * 2 ^ 7" using m by simp
  finally show ?thesis using True by (simp add: float_magnitude_def)
next
  case False
  have "float_significand uf div 2 ^ (150 - float_exp uf) \<le> float_significand uf"
    by (rule div_le_dividend)
  also have "\<dots> < 2 ^ 31"
    using float_frac_less[of uf] by (simp add: float_significand_def)
  finally show ?thesis using False by (simp add: float_magnitude_def)
qed

lemma unat_result:
  assumes "127 \<le> float_exp uf" "float_exp uf \<le> 157"
  shows "unat (if 23 <s (shr uf 23 AND 0xFF) - 127
               then shl ((uf AND 0x7FFFFF) OR 0x800000) ((shr uf 23 AND 0xFF) - 127 - 23)
               else sar ((uf AND 0x7FFFFF) OR 0x800000) (23 - ((shr uf 23 AND 0xFF) - 127)))
         = float_magnitude uf"
proof (cases "150 < float_exp uf")
  case True
  let ?r = "(uf AND 0x7FFFFF) OR 0x800000"
  let ?k = "(shr uf 23 AND 0xFF) - 127 - 23"
  have c: "23 <s (shr uf 23 AND 0xFF) - 127" using True by (simp only: unbiased_tests)
  have k: "unat ?k = float_exp uf - 150" using True by (intro shift_counts) simp
  have m: "unat ?r * 2 ^ unat ?k = float_magnitude uf"
    using True by (simp only: k unat_significand float_magnitude_def float_significand_def if_True)
  have "float_magnitude uf < 2 ^ 31" using assms by (intro float_magnitude_less)
  then have "unat ?r * 2 ^ unat ?k < 2 ^ 32" by (simp only: m) simp
  then have "unat (shl ?r ?k) = unat ?r * 2 ^ unat ?k" by (rule unat_shl)
  then have "unat (shl ?r ?k) = float_magnitude uf" by (simp only: m)
  then show ?thesis by (simp only: c if_True)
next
  case False
  let ?r = "(uf AND 0x7FFFFF) OR 0x800000"
  let ?k = "23 - ((shr uf 23 AND 0xFF) - 127)"
  have c: "\<not> 23 <s (shr uf 23 AND 0xFF) - 127" using False by (simp only: unbiased_tests not_False_eq_True)
  have k: "unat ?k = 150 - float_exp uf" using False by (intro shift_counts) simp
  have m: "unat ?r div 2 ^ unat ?k = float_magnitude uf"
    using False by (simp only: k unat_significand float_magnitude_def float_significand_def if_False)
  have "unat ?r < 2 ^ 31"
    using float_frac_less[of uf] by (simp only: unat_significand) simp
  then have "unat (sar ?r ?k) = unat ?r div 2 ^ unat ?k" by (rule unat_sar)
  then have "unat (sar ?r ?k) = float_magnitude uf" by (simp only: m)
  then show ?thesis by (simp only: c if_False)
qed

lemma uf_0_fields: "float_exp 0 = 0" "float_frac 0 = 0" "\<not> float_sign 0"
  by (simp_all add: float_exp_def float_frac_def float_sign_def)

lemma floatFloat2Int_site_cases:
  "floatFloat2Int_site uf =
    (if uf = 0 then (Zero_145, 0)
     else if float_exp uf = 255 then (Special_153, 0x80000000)
     else if float_exp uf = 0 then (Denorm_156, 0)
     else if float_exp uf < 127 then (Small_164, 0)
     else if 158 \<le> float_exp uf then (Large_165, 0x80000000)
     else if float_sign uf then (Negative_172, - of_nat (float_magnitude uf))
     else (Result_176, of_nat (float_magnitude uf)))"
proof (cases "127 \<le> float_exp uf \<and> float_exp uf \<le> 157")
  case False
  then show ?thesis
    by (auto simp add: floatFloat2Int_site_def Let_def exp_eq_iff unbiased_tests)
next
  case True
  define r where "r = (if 23 <s (shr uf 23 AND 0xFF) - 127
               then shl ((uf AND 0x7FFFFF) OR 0x800000) ((shr uf 23 AND 0xFF) - 127 - 23)
               else sar ((uf AND 0x7FFFFF) OR 0x800000) (23 - ((shr uf 23 AND 0xFF) - 127)))"
  have u: "unat r = float_magnitude uf" unfolding r_def using True by (intro unat_result) simp_all
  have lt: "float_magnitude uf < 2 ^ 31" using True by (intro float_magnitude_less) simp
  have "of_nat (unat r) = r" by simp
  then have r: "r = of_nat (float_magnitude uf)" by (simp only: u)
  have "\<not> bit r 31" using u lt by (intro not_bit_31_small) simp
  then have s: "sar r 31 = 0" by (simp add: sar_31)
  have n: "NOT r + 1 = - r" by (simp add: minus_eq_not_plus_1)
  have nz: "uf \<noteq> 0" using True uf_0_fields by auto
  have "floatFloat2Int_site uf =
      (if uf AND shl 1 31 \<noteq> 0 then (Negative_172, NOT r + 1) else
               if sar r 31 \<noteq> 0 then (Overflow_175, 0x80000000)
               else (Result_176, r))"
    using True nz unfolding r_def
    by (simp add: floatFloat2Int_site_def Let_def exp_eq_iff unbiased_tests)
  then have "floatFloat2Int_site uf =
      (if float_sign uf then (Negative_172, - r) else (Result_176, r))"
    by (simp add: s n sign_field)
  then show ?thesis using True nz
    by (simp add: r)
qed

lemma floatFloat2Int_eq_snd_site:
  "floatFloat2Int uf = snd (floatFloat2Int_site uf)"
  by (simp add: floatFloat2Int_def floatFloat2Int_site_def Let_def)

section \<open>The value of a pattern, truncated\<close>

lemma truncate_nonneg: "0 \<le> r \<Longrightarrow> truncate_toward_zero r = \<lfloor>r\<rfloor>"
  by (simp add: truncate_toward_zero_def)

lemma truncate_minus: "0 \<le> r \<Longrightarrow> truncate_toward_zero (- r) = - \<lfloor>r\<rfloor>"
  by (cases "r = 0") (simp_all add: truncate_toward_zero_def ceiling_def)

lemma float_value_normalized:
  assumes "float_exp uf \<noteq> 0"
  shows "float_value uf =
    (if float_sign uf then - 1 else 1) *
      (of_nat (float_significand uf) * 2 powi (int (float_exp uf) - 150))"
proof -
  have e1: "(1 + of_nat (float_frac uf) / 2 ^ 23 :: rat) = of_nat (float_significand uf) / 2 ^ 23"
    by (simp add: float_significand_def add_divide_distrib)
  have e2: "(2 :: rat) powi (int (float_exp uf) - 150)
      = 2 powi (int (float_exp uf) - 127) / 2 ^ 23"
    using power_int_diff[of "2 :: rat" "int (float_exp uf) - 127" 23] by simp
  have "(1 + of_nat (float_frac uf) / 2 ^ 23 :: rat) * 2 powi (int (float_exp uf) - 127)
      = of_nat (float_significand uf) * 2 powi (int (float_exp uf) - 150)"
    by (simp only: e1 e2 times_divide_eq_left times_divide_eq_right)
  then show ?thesis unfolding float_value_def using assms by (simp only: if_False)
qed

lemma floor_scaled:
  "\<lfloor>(of_nat (float_significand uf) :: rat) * 2 powi (int (float_exp uf) - 150)\<rfloor>
     = int (float_magnitude uf)"
proof (cases "150 < float_exp uf")
  case True
  then have "int (float_exp uf) - 150 = int (float_exp uf - 150)" by simp
  then have "(2 :: rat) powi (int (float_exp uf) - 150) = 2 ^ (float_exp uf - 150)"
    by (simp only: power_int_of_nat)
  then have "(of_nat (float_significand uf) :: rat) * 2 powi (int (float_exp uf) - 150)
      = of_nat (float_significand uf * 2 ^ (float_exp uf - 150))"
    by simp
  then show ?thesis using True by (simp only: floor_of_nat float_magnitude_def if_True)
next
  case False
  then have "int (float_exp uf) - 150 = - int (150 - float_exp uf)" by simp
  then have "(2 :: rat) powi (int (float_exp uf) - 150) = 1 / 2 ^ (150 - float_exp uf)"
    by (simp only: power_int_minus_divide power_int_of_nat)
  then have "(of_nat (float_significand uf) :: rat) * 2 powi (int (float_exp uf) - 150)
      = of_nat (float_significand uf) / of_nat (2 ^ (150 - float_exp uf))"
    by simp
  then show ?thesis using False
    by (simp only: floor_divide_of_nat_eq float_magnitude_def if_False)
qed

lemma truncate_normalized:
  assumes "float_exp uf \<noteq> 0"
  shows "truncate_toward_zero (float_value uf) =
    (if float_sign uf then - int (float_magnitude uf) else int (float_magnitude uf))"
proof -
  let ?a = "(of_nat (float_significand uf) :: rat) * 2 powi (int (float_exp uf) - 150)"
  have nn: "0 \<le> ?a" by simp
  have "float_value uf = (if float_sign uf then - ?a else ?a)"
    using float_value_normalized[OF assms] by simp
  then show ?thesis
    using truncate_nonneg[OF nn] truncate_minus[OF nn] by (simp add: floor_scaled)
qed

lemma truncate_denormalized:
  assumes "float_exp uf = 0"
  shows "truncate_toward_zero (float_value uf) = 0"
proof -
  define a :: rat where "a = (of_nat (float_frac uf) / 2 ^ 23) * 2 powi (- 126)"
  have "(of_nat (float_frac uf) :: rat) < of_nat (2 ^ 23)"
    using float_frac_less[of uf] by (simp only: of_nat_less_iff)
  then have f: "(of_nat (float_frac uf) / 2 ^ 23 :: rat) < 1" by simp
  have p: "(2 :: rat) powi (- 126) \<le> 1" by (simp add: power_int_minus_divide)
  have p0: "0 \<le> (2 :: rat) powi (- 126)" by simp
  have nn: "0 \<le> a" unfolding a_def by simp
  have "a < 1 * 1"
    unfolding a_def using f p p0 by (intro mult_less_le_imp_less) simp_all
  then have lt: "a < 1" by simp
  with nn have fl: "\<lfloor>a\<rfloor> = 0" by (simp add: floor_eq_iff)
  have "float_value uf = (if float_sign uf then - a else a)"
    unfolding float_value_def a_def using assms by (simp only: if_True) simp
  then show ?thesis
    using truncate_nonneg[OF nn] truncate_minus[OF nn] by (simp add: fl)
qed

lemma float_magnitude_small:
  assumes "float_exp uf < 127"
  shows "float_magnitude uf = 0"
proof -
  have "float_significand uf < 2 ^ 24"
    using float_frac_less[of uf] by (simp add: float_significand_def)
  also have "(2 :: nat) ^ 24 \<le> 2 ^ (150 - float_exp uf)"
    using assms by (intro power_increasing) simp_all
  finally show ?thesis using assms by (simp add: float_magnitude_def)
qed

lemma float_magnitude_large:
  assumes "158 \<le> float_exp uf"
  shows "2 ^ 31 \<le> float_magnitude uf"
proof -
  have "(2 :: nat) ^ 23 \<le> float_significand uf"
    by (simp add: float_significand_def)
  moreover have "(2 :: nat) ^ 8 \<le> 2 ^ (float_exp uf - 150)"
    using assms by (intro power_increasing) simp_all
  ultimately have "(2 :: nat) ^ 23 * 2 ^ 8 \<le> float_significand uf * 2 ^ (float_exp uf - 150)"
    by (rule mult_le_mono)
  then show ?thesis using assms by (simp add: float_magnitude_def)
qed

section \<open>floatFloat2Int against the reference conversion\<close>

lemma floatFloat2Int_cases:
  "floatFloat2Int uf =
    (if float_exp uf = 255 then 0x80000000
     else if float_exp uf < 127 then 0
     else if 158 \<le> float_exp uf then 0x80000000
     else if float_sign uf then - of_nat (float_magnitude uf)
     else of_nat (float_magnitude uf))"
  using uf_0_fields
  by (auto simp add: floatFloat2Int_eq_snd_site floatFloat2Int_site_cases)

lemma float2int_spec_cases:
  "float2int_spec uf =
    (if float_exp uf = 255 then 0x80000000
     else if float_exp uf < 127 then 0
     else if 158 \<le> float_exp uf then 0x80000000
     else if float_sign uf then - of_nat (float_magnitude uf)
     else of_nat (float_magnitude uf))"
proof -
  consider (special) "float_exp uf = 255"
    | (denorm) "float_exp uf = 0"
    | (small) "0 < float_exp uf" "float_exp uf < 127"
    | (mid) "127 \<le> float_exp uf" "float_exp uf \<le> 157"
    | (large) "158 \<le> float_exp uf" "float_exp uf \<noteq> 255"
    by linarith
  then show ?thesis
  proof cases
    case special
    then show ?thesis by (simp add: float2int_spec_def)
  next
    case denorm
    then show ?thesis by (simp add: float2int_spec_def truncate_denormalized)
  next
    case small
    then have "truncate_toward_zero (float_value uf) = 0"
      by (simp add: truncate_normalized float_magnitude_small)
    with small show ?thesis by (simp add: float2int_spec_def)
  next
    case mid
    then have t: "truncate_toward_zero (float_value uf) =
      (if float_sign uf then - int (float_magnitude uf) else int (float_magnitude uf))"
      by (intro truncate_normalized) simp
    have "float_magnitude uf < 2 ^ 31" using mid by (intro float_magnitude_less)
    then have "int (float_magnitude uf) < 2 ^ 31"
      by (metis of_nat_less_iff of_nat_numeral of_nat_power)
    with mid t show ?thesis by (simp add: float2int_spec_def)
  next
    case large
    then have t: "truncate_toward_zero (float_value uf) =
      (if float_sign uf then - int (float_magnitude uf) else int (float_magnitude uf))"
      by (intro truncate_normalized) simp
    have "2 ^ 31 \<le> float_magnitude uf" using large by (intro float_magnitude_large)
    then have ge: "2 ^ 31 \<le> int (float_magnitude uf)"
      by (metis of_nat_le_iff of_nat_numeral of_nat_power)
    show ?thesis
    proof (cases "float_sign uf")
      case False
      with large t ge show ?thesis by (simp add: float2int_spec_def)
    next
      case True
      show ?thesis
      proof (cases "int (float_magnitude uf) = 2 ^ 31")
        case eq: True
        with True t have "truncate_toward_zero (float_value uf) = - (2 ^ 31)" by simp
        with large show ?thesis by (simp add: float2int_spec_def)
      next
        case False
        with ge have "2 ^ 31 < int (float_magnitude uf)" by simp
        with True large t show ?thesis by (simp add: float2int_spec_def)
      qed
    qed
  qed
qed

lemma magnitude_exceeds:
  assumes "float_exp uf \<noteq> 0" "158 \<le> float_exp uf"
  shows "2 ^ 31 \<le> \<bar>float_value uf\<bar>"
proof -
  define a :: rat where
    "a = of_nat (float_significand uf) * 2 powi (int (float_exp uf) - 150)"
  have nn: "0 \<le> a" unfolding a_def by simp
  have "float_value uf = (if float_sign uf then - a else a)"
    using float_value_normalized[OF assms(1)] by (simp add: a_def)
  with nn have abs: "\<bar>float_value uf\<bar> = a" by simp
  have "2 ^ 31 \<le> float_magnitude uf" using assms(2) by (rule float_magnitude_large)
  then have "(2 ^ 31 :: int) \<le> int (float_magnitude uf)"
    by (metis of_nat_le_iff of_nat_numeral of_nat_power)
  then have "(2 ^ 31 :: int) \<le> \<lfloor>a\<rfloor>" unfolding a_def by (simp only: floor_scaled)
  then have "of_int (2 ^ 31) \<le> a" by (simp only: le_floor_iff)
  then show ?thesis by (simp add: abs)
qed

lemmas float_eval =
  floatFloat2Int_def floatFloat2Int_site_def Let_def shl_def shr_def sar_def
  word_sless_alt word_sle_eq

text \<open>
  Claim C1. For every 32-bit pattern \<open>uf\<close>, \<open>floatFloat2Int uf\<close> is the 32-bit two's-complement
  pattern of the value of the float \<open>uf\<close> encodes, truncated toward zero, and \<open>0x80000000\<close>
  when \<open>uf\<close> encodes a NaN or an infinity or the truncated value is outside
  \<open>-2\<^sup>3\<^sup>1 .. 2\<^sup>3\<^sup>1 - 1\<close>. In particular \<open>0x3F800000\<close> (the float 1) gives 1, \<open>0xBFC00000\<close>
  (the float \<open>- 3 / 2\<close>) gives \<open>- 1\<close>, \<open>0x7F800000\<close> (exponent field 255, infinity) gives
  \<open>0x80000000\<close>, and 0 gives 0.
\<close>

theorem floatFloat2Int_correct:
  "floatFloat2Int uf = float2int_spec uf
   \<and> float_value 0x3F800000 = 1 \<and> floatFloat2Int 0x3F800000 = 1
   \<and> float_value 0xBFC00000 = - 3 / 2 \<and> floatFloat2Int 0xBFC00000 = - 1
   \<and> float_exp 0x7F800000 = 255 \<and> floatFloat2Int 0x7F800000 = 0x80000000
   \<and> floatFloat2Int 0 = 0"
proof -
  have "floatFloat2Int uf = float2int_spec uf"
    by (simp only: floatFloat2Int_cases float2int_spec_cases)
  moreover have "float_value 0x3F800000 = 1" "float_value 0xBFC00000 = - 3 / 2"
    by (simp_all add: float_value_def float_sign_def float_exp_def float_frac_def)
  moreover have "float_exp 0x7F800000 = 255"
    by (simp add: float_exp_def)
  moreover have "floatFloat2Int 0x3F800000 = 1" "floatFloat2Int 0xBFC00000 = - 1"
    "floatFloat2Int 0x7F800000 = 0x80000000" "floatFloat2Int 0 = 0"
    by (simp_all add: float_eval)
  ultimately show ?thesis by (simp only: simp_thms)
qed

text \<open>
  Claim C2. When the exponent field of \<open>uf\<close> (bits 30--23, which is what the code keeps in
  \<^verbatim>\<open>exp\<close>) is 255, and when \<open>uf\<close> is normalized with unbiased exponent
  \<open>exp - 127 \<ge> 31\<close>, \<open>floatFloat2Int uf\<close> returns the value \<open>0x80000000\<close>; the function is
  total and has no other way to report the case. In the second case the magnitude of the
  encoded value is above \<open>2\<^sup>3\<^sup>1 - 1\<close>, the largest signed 32-bit value.
\<close>

theorem sentinel_for_special_and_large:
  "(float_exp uf = 255 \<longrightarrow> floatFloat2Int uf = 0x80000000)
   \<and> (float_exp uf \<noteq> 0 \<and> float_exp uf \<noteq> 255 \<and> 31 \<le> int (float_exp uf) - 127 \<longrightarrow>
        floatFloat2Int uf = 0x80000000 \<and> 2 ^ 31 - 1 < \<bar>float_value uf\<bar>)
   \<and> unat (shr uf 23 AND 0xFF) = float_exp uf"
proof -
  have "floatFloat2Int uf = 0x80000000 \<and> 2 ^ 31 - 1 < \<bar>float_value uf\<bar>"
    if a: "float_exp uf \<noteq> 0" "31 \<le> int (float_exp uf) - 127"
  proof -
    from a have l: "158 \<le> float_exp uf" by simp
    from magnitude_exceeds[OF a(1) l] have "2 ^ 31 - 1 < \<bar>float_value uf\<bar>" by simp
    moreover from l have "floatFloat2Int uf = 0x80000000" by (simp add: floatFloat2Int_cases)
    ultimately show ?thesis by simp
  qed
  moreover have "float_exp uf = 255 \<Longrightarrow> floatFloat2Int uf = 0x80000000"
    by (simp add: floatFloat2Int_cases)
  ultimately show ?thesis using unat_exp_field[of uf] by blast
qed

theorem sentinel_for_special_and_large_witness:
  "float_exp 0x7F800000 = 255 \<and> floatFloat2Int 0x7F800000 = 0x80000000
   \<and> float_exp 0x4F000000 \<noteq> 0 \<and> float_exp 0x4F000000 \<noteq> 255
   \<and> 31 \<le> int (float_exp 0x4F000000) - 127
   \<and> floatFloat2Int 0x4F000000 = 0x80000000
   \<and> 2 ^ 31 - 1 < \<bar>float_value 0x4F000000\<bar>"
proof -
  have a: "float_exp 0x7F800000 = 255" by (simp add: float_exp_def)
  have b: "float_exp 0x4F000000 = 158" by (simp add: float_exp_def)
  from a sentinel_for_special_and_large[of "0x7F800000"]
  have "floatFloat2Int 0x7F800000 = 0x80000000" by blast
  moreover from b sentinel_for_special_and_large[of "0x4F000000"]
  have "floatFloat2Int 0x4F000000 = 0x80000000 \<and> 2 ^ 31 - 1 < \<bar>float_value 0x4F000000\<bar>"
    by simp
  ultimately show ?thesis using a b by simp
qed

text \<open>
  Claim C9. \<open>floatFloat2Int 0x80000000\<close>, the pattern of negative zero (sign bit set,
  exponent field 0, value 0), is 0. The test
  \<^verbatim>\<open>uf == 0\<close> of line 145 is taken by the pattern 0 only, so negative zero goes on to the
  test of line 156 for a zero exponent field and returns 0 there, as does every pattern with
  exponent field 0 and the sign bit set.
\<close>

theorem negative_zero_is_denormalized:
  "floatFloat2Int 0x80000000 = 0
   \<and> float_sign 0x80000000 \<and> float_exp 0x80000000 = 0 \<and> float_value 0x80000000 = 0
   \<and> floatFloat2Int_site 0x80000000 = (Denorm_156, 0)
   \<and> (fst (floatFloat2Int_site uf) = Zero_145 \<longleftrightarrow> uf = 0)
   \<and> (float_exp uf = 0 \<and> float_sign uf \<longrightarrow>
        floatFloat2Int uf = 0 \<and> floatFloat2Int_site uf = (Denorm_156, 0))"
proof -
  have "floatFloat2Int uf = 0 \<and> floatFloat2Int_site uf = (Denorm_156, 0)"
    if a: "float_exp uf = 0" "float_sign uf"
  proof -
    from a(2) uf_0_fields(3) have "uf \<noteq> 0" by blast
    with a(1) show ?thesis by (simp add: floatFloat2Int_eq_snd_site floatFloat2Int_site_cases)
  qed
  moreover have "fst (floatFloat2Int_site uf) = Zero_145 \<longleftrightarrow> uf = 0"
    by (simp add: floatFloat2Int_site_cases)
  moreover have "floatFloat2Int 0x80000000 = 0" "floatFloat2Int_site 0x80000000 = (Denorm_156, 0)"
    by (simp_all add: float_eval)
  moreover have "float_sign 0x80000000" "float_exp 0x80000000 = 0" "float_value 0x80000000 = 0"
    by (simp_all add: float_value_def float_sign_def float_exp_def float_frac_def)
  ultimately show ?thesis by blast
qed

theorem negative_zero_is_denormalized_witness:
  "float_exp 0x80000001 = 0 \<and> float_sign 0x80000001
   \<and> floatFloat2Int 0x80000001 = 0 \<and> floatFloat2Int_site 0x80000001 = (Denorm_156, 0)"
proof -
  have a: "float_exp 0x80000001 = 0" "float_sign 0x80000001"
    by (simp_all add: float_exp_def float_sign_def)
  with negative_zero_is_denormalized[of "0x80000001"] show ?thesis by blast
qed

text \<open>
  Claim C10. The \<^verbatim>\<open>return 0x80000000\<close> of line 175 is never executed. The inputs that get past
  line 172 are the normalized ones with the sign bit clear and unbiased exponent between 0
  and 30; for each of them the shifted significand is below \<open>2\<^sup>3\<^sup>1\<close>, so \<^verbatim>\<open>result >> 31\<close> is 0
  and the function returns \<^verbatim>\<open>result\<close> from line 176.
\<close>

theorem overflow_guard_unreachable:
  "fst (floatFloat2Int_site uf) \<noteq> Overflow_175
   \<and> floatFloat2Int uf = snd (floatFloat2Int_site uf)
   \<and> (fst (floatFloat2Int_site uf) = Result_176 \<longleftrightarrow>
        float_exp uf \<noteq> 0 \<and> float_exp uf \<noteq> 255 \<and> \<not> float_sign uf
        \<and> 0 \<le> int (float_exp uf) - 127 \<and> int (float_exp uf) - 127 \<le> 30)
   \<and> (float_exp uf \<noteq> 0 \<and> float_exp uf \<noteq> 255 \<and> \<not> float_sign uf
        \<and> 0 \<le> int (float_exp uf) - 127 \<and> int (float_exp uf) - 127 \<le> 30 \<longrightarrow>
      unat (shifted_result uf) < 2 ^ 31
      \<and> sar (shifted_result uf) 31 = 0
      \<and> floatFloat2Int_site uf = (Result_176, shifted_result uf))"
proof -
  have "unat (shifted_result uf) < 2 ^ 31
      \<and> sar (shifted_result uf) 31 = 0
      \<and> floatFloat2Int_site uf = (Result_176, shifted_result uf)"
    if a: "\<not> float_sign uf" "0 \<le> int (float_exp uf) - 127" "int (float_exp uf) - 127 \<le> 30"
  proof -
    from a have r: "127 \<le> float_exp uf" "float_exp uf \<le> 157" by simp_all
    have u: "unat (shifted_result uf) = float_magnitude uf"
      unfolding shifted_result_def Let_def using r by (rule unat_result)
    have lt: "unat (shifted_result uf) < 2 ^ 31"
      using float_magnitude_less[OF r(2)] by (simp only: u)
    then have "\<not> bit (shifted_result uf) 31" by (rule not_bit_31_small)
    then have s: "sar (shifted_result uf) 31 = 0" by (simp add: sar_31)
    have "of_nat (unat (shifted_result uf)) = shifted_result uf" by simp
    then have "shifted_result uf = of_nat (float_magnitude uf)" by (simp only: u)
    moreover have "uf \<noteq> 0" using r uf_0_fields(1) by auto
    ultimately have "floatFloat2Int_site uf = (Result_176, shifted_result uf)"
      using a(1) r by (simp add: floatFloat2Int_site_cases)
    with lt s show ?thesis by simp
  qed
  moreover have "fst (floatFloat2Int_site uf) \<noteq> Overflow_175"
    by (simp add: floatFloat2Int_site_cases)
  moreover have "fst (floatFloat2Int_site uf) = Result_176 \<longleftrightarrow>
        float_exp uf \<noteq> 0 \<and> float_exp uf \<noteq> 255 \<and> \<not> float_sign uf
        \<and> 0 \<le> int (float_exp uf) - 127 \<and> int (float_exp uf) - 127 \<le> 30"
    using uf_0_fields(1) by (auto simp add: floatFloat2Int_site_cases)
  ultimately show ?thesis using floatFloat2Int_eq_snd_site[of uf] by blast
qed

theorem overflow_guard_unreachable_witness:
  "float_exp 0x4EFFFFFF \<noteq> 0 \<and> float_exp 0x4EFFFFFF \<noteq> 255 \<and> \<not> float_sign 0x4EFFFFFF
   \<and> 0 \<le> int (float_exp 0x4EFFFFFF) - 127 \<and> int (float_exp 0x4EFFFFFF) - 127 \<le> 30
   \<and> shifted_result 0x4EFFFFFF = 0x7FFFFF80
   \<and> unat (shifted_result 0x4EFFFFFF) < 2 ^ 31
   \<and> floatFloat2Int_site 0x4EFFFFFF = (Result_176, 0x7FFFFF80)"
proof -
  have a: "float_exp 0x4EFFFFFF = 157" "\<not> float_sign 0x4EFFFFFF"
    by (simp_all add: float_exp_def float_sign_def)
  have b: "shifted_result 0x4EFFFFFF = 0x7FFFFF80"
    by (simp add: shifted_result_def float_eval)
  from a overflow_guard_unreachable[of "0x4EFFFFFF"]
  have "unat (shifted_result 0x4EFFFFFF) < 2 ^ 31
      \<and> floatFloat2Int_site 0x4EFFFFFF = (Result_176, shifted_result 0x4EFFFFFF)"
    by simp
  with a b show ?thesis by simp
qed

end
